theory Spec2Isabelle
  imports Complex_Main "HOL-Library.Log_Nat"
begin

section \<open>Python values and double-precision arithmetic\<close>

text \<open>
  The exceptions that the modelled code paths can raise, and the two kinds of value a
  method of \<^verbatim>\<open>main.py\<close> could hand back to its caller.
\<close>

datatype py_exception = SqliteError string | ZeroDivisionError | AttributeError

datatype py_value = PyNone | PyBool bool

text \<open>
  \<^verbatim>\<open>progress_value = int(((idx + 1) / total_tables) * 100)\<close> is computed in Python
  floats, that is IEEE 754 binary64 with round-to-nearest, ties-to-even. A finite double
  is a dyadic rational, so a float is modelled by the rational it denotes and every
  operation rounds its exact result to 53 significant bits. The exponent range is not
  bounded in the model: the operands here lie between \<open>2\<^sup>-\<^sup>6\<^sup>3\<close> (a list has fewer than
  \<open>2\<^sup>6\<^sup>3\<close> entries) and 100, far from overflow and underflow.
\<close>

type_synonym py_float = rat

definition ilog2 :: "rat \<Rightarrow> int" where
  \<comment> \<open>the binary exponent of a positive rational: the floor of its logarithm to base 2\<close>
  "ilog2 x = (case quotient_of x of (a, b) \<Rightarrow>
     (let d = bitlen a - bitlen b
      in if b * 2 ^ nat (bitlen a) \<le> a * 2 ^ nat (bitlen b) then d else d - 1))"

definition round_half_even :: "rat \<Rightarrow> int" where
  "round_half_even y = (let f = \<lfloor>y\<rfloor>; r = y - of_int f
     in if r < 1 / 2 then f else if 1 / 2 < r then f + 1
        else if even f then f else f + 1)"

definition round_pos :: "rat \<Rightarrow> py_float" where
  \<comment> \<open>scale so that the significand lies in \<open>[2\<^sup>5\<^sup>2, 2\<^sup>5\<^sup>3)\<close>, round it, scale back\<close>
  "round_pos x = (let e = ilog2 x - 52
     in of_int (round_half_even (x / 2 powi e)) * 2 powi e)"

definition round_double :: "rat \<Rightarrow> py_float" where
  "round_double x = (if x = 0 then 0 else if x < 0 then - round_pos (- x) else round_pos x)"

definition py_truediv :: "int \<Rightarrow> int \<Rightarrow> py_exception + py_float" where
  \<comment> \<open>\<^verbatim>\<open>a / b\<close> on two ints: the correctly rounded quotient, or ZeroDivisionError\<close>
  "py_truediv a b =
     (if b = 0 then Inl ZeroDivisionError else Inr (round_double (of_int a / of_int b)))"

definition py_float_of_int :: "int \<Rightarrow> py_float" where
  "py_float_of_int n = round_double (of_int n)"

definition py_float_mul :: "py_float \<Rightarrow> py_float \<Rightarrow> py_float" where
  "py_float_mul x y = round_double (x * y)"

definition py_int :: "py_float \<Rightarrow> int" where
  \<comment> \<open>\<^verbatim>\<open>int(x)\<close> on a float truncates toward zero\<close>
  "py_int x = (if 0 \<le> x then \<lfloor>x\<rfloor> else \<lceil>x\<rceil>)"

section \<open>The SQLite client library\<close>

text \<open>
  The database engine is outside the repository; it is a parameter. Opening a path
  either succeeds or raises \<^verbatim>\<open>sqlite3.Error\<close> with a message; a query on an open
  connection either raises \<^verbatim>\<open>sqlite3.Error\<close> or returns its rows. The rows are typed
  by the query: the catalog query selects the single column \<^verbatim>\<open>name\<close>, so a row is a
  1-tuple and \<^verbatim>\<open>table[0]\<close> is that name; \<^verbatim>\<open>PRAGMA table_info\<close> returns the six
  fields below, \<^verbatim>\<open>col[1]\<close> being the column name; a row of \<^verbatim>\<open>SELECT *\<close> is a tuple
  of cell values of any length. \<^verbatim>\<open>str\<close> on a cell value is a parameter as well.
\<close>

record column_info =
  cid :: int
  col_name :: string
  col_type :: string
  notnull :: int
  dflt_value :: "string option"
  pk :: int

record 'v sqlite =
  db_connect :: "string \<Rightarrow> string option"
  query_names :: "string \<Rightarrow> string \<Rightarrow> string + string list"
  query_rows :: "string \<Rightarrow> string \<Rightarrow> string + 'v list list"
  query_columns :: "string \<Rightarrow> string \<Rightarrow> string + column_info list"
  py_str :: "'v \<Rightarrow> string"

text \<open>
  What the program does to the outside world, in the order it does it: connections
  opened and closed, statements passed to \<^verbatim>\<open>cursor.execute\<close>, the two signals of the
  worker thread, and lines printed.
\<close>

datatype event =
    Connect string
  | Execute string string
  | Close string
  | Progress int
  | Finished "string list"
  | Print string

section \<open>DatabaseLoader\<close>

definition catalog_sql :: string where
  "catalog_sql = ''SELECT name FROM sqlite_master WHERE type='' @ [CHR 0x27] @ ''table''
                 @ [CHR 0x27] @ '';''"

definition progress_value :: "nat \<Rightarrow> nat \<Rightarrow> py_exception + int" where
  "progress_value idx total_tables =
     (case py_truediv (int idx + 1) (int total_tables) of
        Inl e \<Rightarrow> Inl e
      | Inr q \<Rightarrow> Inr (py_int (py_float_mul q (py_float_of_int 100))))"

text \<open>
  The \<^verbatim>\<open>for idx, table in enumerate(tables)\<close> loop. The state is the list built so far
  and the events emitted so far; an exception leaves the loop with that state.
\<close>

fun load_tables ::
  "nat \<Rightarrow> nat \<Rightarrow> string list \<Rightarrow> string list \<times> event list
     \<Rightarrow> (string list \<times> event list) \<times> py_exception option" where
  "load_tables total_tables idx [] st = (st, None)"
| "load_tables total_tables idx (table # rest) (table_list, evs) =
     (case progress_value idx total_tables of
        Inl e \<Rightarrow> ((table_list @ [table], evs), Some e)
      | Inr pv \<Rightarrow>
          load_tables total_tables (Suc idx) rest (table_list @ [table], evs @ [Progress pv]))"

text \<open>
  \<^verbatim>\<open>DatabaseLoader.run\<close>: the events of one execution and the exception that ended
  it, if any. There is no \<^verbatim>\<open>try\<close> in the method, so an exception ends it at once.
\<close>

definition run :: "'v sqlite \<Rightarrow> string \<Rightarrow> event list \<times> py_exception option" where
  "run env db_path =
     (case db_connect env db_path of
        Some m \<Rightarrow> ([], Some (SqliteError m))
      | None \<Rightarrow>
          (case query_names env db_path catalog_sql of
             Inl m \<Rightarrow> ([Connect db_path, Execute db_path catalog_sql], Some (SqliteError m))
           | Inr tables \<Rightarrow>
               (case load_tables (length tables) 0 tables
                       ([], [Connect db_path, Execute db_path catalog_sql]) of
                  ((table_list, evs), Some e) \<Rightarrow> (evs, Some e)
                | ((table_list, evs), None) \<Rightarrow>
                    (evs @ [Close db_path, Finished table_list], None))))"

definition progress_values :: "event list \<Rightarrow> int list" where
  "progress_values evs = concat (map (\<lambda>e. case e of Progress v \<Rightarrow> [v] | _ \<Rightarrow> []) evs)"

text \<open>
  The words of the specification for the progress value: the percentage
  \<open>100 \<times> (index + 1) / total\<close>, rounded to the nearest integer.
\<close>

definition spec_progress :: "nat \<Rightarrow> nat \<Rightarrow> int" where
  "spec_progress idx n = round (100 * (of_nat idx + 1) / of_nat n :: rat)"

section \<open>MainWindow\<close>

text \<open>
  A \<^verbatim>\<open>QTableWidget\<close>: its dimensions, the header labels set and the cell texts set.
  \<^verbatim>\<open>setItem\<close> outside the dimensions of the widget stores nothing, and
  \<^verbatim>\<open>setHorizontalHeaderLabels\<close> labels no column beyond the column count.
\<close>

record table_widget =
  rowCount :: nat
  columnCount :: nat
  headerLabels :: "string list"
  cells :: "nat \<times> nat \<rightharpoonup> string"

definition QTableWidget :: table_widget where
  "QTableWidget = \<lparr>rowCount = 0, columnCount = 0, headerLabels = [], cells = Map.empty\<rparr>"

definition setRowCount :: "table_widget \<Rightarrow> nat \<Rightarrow> table_widget" where
  "setRowCount w n =
     w\<lparr>rowCount := n, cells := (\<lambda>(r, c). if r < n then cells w (r, c) else None)\<rparr>"

definition setColumnCount :: "table_widget \<Rightarrow> nat \<Rightarrow> table_widget" where
  "setColumnCount w n =
     w\<lparr>columnCount := n, headerLabels := take n (headerLabels w),
       cells := (\<lambda>(r, c). if c < n then cells w (r, c) else None)\<rparr>"

definition setHorizontalHeaderLabels :: "table_widget \<Rightarrow> string list \<Rightarrow> table_widget" where
  "setHorizontalHeaderLabels w labels = w\<lparr>headerLabels := take (columnCount w) labels\<rparr>"

definition setItem :: "table_widget \<Rightarrow> nat \<Rightarrow> nat \<Rightarrow> string \<Rightarrow> table_widget" where
  "setItem w row col txt =
     (if row < rowCount w \<and> col < columnCount w
      then w\<lparr>cells := (cells w)((row, col) \<mapsto> txt)\<rparr> else w)"

text \<open>The two nested \<^verbatim>\<open>enumerate\<close> loops that populate the grid.\<close>

fun fill_row :: "('v \<Rightarrow> string) \<Rightarrow> nat \<Rightarrow> nat \<Rightarrow> 'v list \<Rightarrow> table_widget \<Rightarrow> table_widget" where
  "fill_row str row col [] w = w"
| "fill_row str row col (item # rest) w =
     fill_row str row (Suc col) rest (setItem w row col (str item))"

fun fill_rows :: "('v \<Rightarrow> string) \<Rightarrow> nat \<Rightarrow> 'v list list \<Rightarrow> table_widget \<Rightarrow> table_widget" where
  "fill_rows str row [] w = w"
| "fill_rows str row (rowData # rest) w =
     fill_rows str (Suc row) rest (fill_row str row 0 rowData w)"

definition build_table :: "('v \<Rightarrow> string) \<Rightarrow> 'v list list \<Rightarrow> column_info list \<Rightarrow> table_widget" where
  "build_table str data columns =
     (let table_widget = setColumnCount (setRowCount QTableWidget (length data)) (length columns);
          column_names = map col_name columns
      in fill_rows str 0 data (setHorizontalHeaderLabels table_widget column_names))"

record tab =
  widget :: table_widget
  tabText :: string

text \<open>
  The window. \<^verbatim>\<open>database_items\<close> maps a database name to \<^verbatim>\<open>{'path': db_path}\<close>,
  a dictionary with that one key, kept here as the path. The tree model is the list of
  top-level items, each with the texts of its children. \<open>started\<close> lists the loader
  threads started so far, each with the database name its completion handler captured.
  Icons, geometry and the current-tab selection of the tab widget are not part of the
  state.
\<close>

record main_window =
  database_items :: "string \<rightharpoonup> string"
  progressVisible :: bool
  progressValue :: int
  statusText :: string
  loaderThread :: "string option"
  started :: "(string \<times> string) list"
  treeModel :: "(string \<times> string list) list"
  dockTitle :: string
  tabs :: "tab list"
  trace :: "event list"

definition init_window :: main_window where
  "init_window = \<lparr>database_items = Map.empty, progressVisible = False, progressValue = -1,
     statusText = ''Ready'', loaderThread = None, started = [], treeModel = [],
     dockTitle = ''Table Data'', tabs = [], trace = []\<rparr>"

definition setValue :: "main_window \<Rightarrow> int \<Rightarrow> main_window" where
  \<comment> \<open>a \<^verbatim>\<open>QProgressBar\<close> ranges over 0..100 and ignores a value outside its range\<close>
  "setValue s v = (if 0 \<le> v \<and> v \<le> 100 then s\<lparr>progressValue := v\<rparr> else s)"

definition start_loader :: "main_window \<Rightarrow> string \<Rightarrow> string \<Rightarrow> main_window" where
  \<comment> \<open>\<^verbatim>\<open>self.loaderThread = DatabaseLoader(db_path)\<close>, the two \<^verbatim>\<open>connect\<close>s and \<^verbatim>\<open>start()\<close>\<close>
  "start_loader s db_name db_path =
     s\<lparr>loaderThread := Some db_path, started := started s @ [(db_name, db_path)]\<rparr>"

definition store_entry :: "main_window \<Rightarrow> string \<Rightarrow> string \<Rightarrow> main_window" where
  "store_entry s db_name db_path =
     s\<lparr>database_items := (database_items s)(db_name \<mapsto> db_path)\<rparr>"

definition loadDatabase :: "main_window \<Rightarrow> string \<Rightarrow> string \<Rightarrow> main_window \<times> py_value" where
  "loadDatabase s db_name db_path =
     (if db_name \<in> dom (database_items s) then (s, PyNone)
      else
        (let s1 = store_entry s db_name db_path;
             s2 = s1\<lparr>progressVisible := True\<rparr>;
             s3 = setValue s2 0;
             s4 = s3\<lparr>statusText := ''Loading '' @ db_name @ ''...''\<rparr>
         in (start_loader s4 db_name db_path, PyNone)))"

definition onDatabaseLoaded :: "main_window \<Rightarrow> string \<Rightarrow> string list \<Rightarrow> main_window" where
  "onDatabaseLoaded s db_name tables =
     s\<lparr>progressVisible := False, statusText := ''Loaded '' @ db_name,
       treeModel := treeModel s @ [(db_name, tables)]\<rparr>"

definition updateProgressBar :: "main_window \<Rightarrow> int \<Rightarrow> main_window" where
  "updateProgressBar s v = setValue s v"

text \<open>
  The body of the \<^verbatim>\<open>try\<close> block of \<^verbatim>\<open>addTableTab\<close> together with its
  \<^verbatim>\<open>except sqlite3.Error\<close> clause: the state after both.
\<close>

definition select_sql :: "string \<Rightarrow> string" where
  "select_sql table_name = ''SELECT * FROM '' @ table_name"

definition pragma_sql :: "string \<Rightarrow> string" where
  "pragma_sql table_name = ''PRAGMA table_info('' @ table_name @ '')''"

definition error_line :: "string \<Rightarrow> string \<Rightarrow> string" where
  "error_line table_name m = ''Error loading table '' @ table_name @ '': '' @ m"

definition emit :: "main_window \<Rightarrow> event \<Rightarrow> main_window" where
  "emit s e = s\<lparr>trace := trace s @ [e]\<rparr>"

definition load_table :: "'v sqlite \<Rightarrow> main_window \<Rightarrow> string \<Rightarrow> string \<Rightarrow> main_window" where
  "load_table env s db_path table_name =
     (let s1 = emit s (Execute db_path (select_sql table_name))
      in case query_rows env db_path (select_sql table_name) of
           Inl m \<Rightarrow> emit s1 (Print (error_line table_name m))
         | Inr data \<Rightarrow>
             (let s2 = emit s1 (Execute db_path (pragma_sql table_name))
              in case query_columns env db_path (pragma_sql table_name) of
                   Inl m \<Rightarrow> emit s2 (Print (error_line table_name m))
                 | Inr columns \<Rightarrow>
                     s2\<lparr>tabs := tabs s2 @
                        [\<lparr>widget = build_table (py_str env) data columns,
                          tabText = table_name\<rparr>]\<rparr>))"

text \<open>
  \<^verbatim>\<open>addTableTab\<close>. \<^verbatim>\<open>sqlite3.connect\<close> stands before the \<^verbatim>\<open>try\<close>, so its exception
  leaves the method; the \<^verbatim>\<open>finally\<close> clause closes the connection after the block.
\<close>

definition addTableTab ::
  "'v sqlite \<Rightarrow> main_window \<Rightarrow> string \<Rightarrow> string \<Rightarrow> main_window \<times> py_exception option" where
  "addTableTab env s db_name table_name =
     (case database_items s db_name of
        None \<Rightarrow> (s, None)
      | Some db_path \<Rightarrow>
          (case db_connect env db_path of
             Some m \<Rightarrow> (s, Some (SqliteError m))
           | None \<Rightarrow>
               (emit (load_table env (emit s (Connect db_path)) db_path table_name)
                  (Close db_path), None)))"

text \<open>
  A \<^verbatim>\<open>QModelIndex\<close> of the two-level tree, and \<^verbatim>\<open>itemFromIndex\<close>: the text of the
  item and the text of its parent, \<^verbatim>\<open>None\<close> for a top-level item. An index that names
  no item gives \<^verbatim>\<open>None\<close>, on which \<^verbatim>\<open>item.parent()\<close> raises AttributeError.
\<close>

datatype model_index = TopLevel nat | Child nat nat

fun itemFromIndex :: "(string \<times> string list) list \<Rightarrow> model_index \<Rightarrow> (string \<times> string option) option" where
  "itemFromIndex tree (TopLevel i) =
     (if i < length tree then Some (fst (tree ! i), None) else None)"
| "itemFromIndex tree (Child i j) =
     (if i < length tree \<and> j < length (snd (tree ! i))
      then Some (snd (tree ! i) ! j, Some (fst (tree ! i))) else None)"

definition onTreeItemClicked ::
  "'v sqlite \<Rightarrow> main_window \<Rightarrow> model_index \<Rightarrow> main_window \<times> py_exception option" where
  "onTreeItemClicked env s index =
     (case itemFromIndex (treeModel s) index of
        None \<Rightarrow> (s, Some AttributeError)
      | Some (table_name, Some db_name) \<Rightarrow>
          addTableTab env
            (s\<lparr>dockTitle := ''Table: '' @ table_name @ '' ('' @ db_name @ '')''\<rparr>)
            db_name table_name
      | Some (db_name, None) \<Rightarrow> (s\<lparr>dockTitle := ''Database: '' @ db_name\<rparr>, None))"

definition closeAllTabs :: "main_window \<Rightarrow> main_window" where
  "closeAllTabs s = s\<lparr>tabs := []\<rparr>"

definition closeTab :: "main_window \<Rightarrow> int \<Rightarrow> main_window" where
  \<comment> \<open>\<^verbatim>\<open>removeTab\<close> does nothing for an index that names no tab\<close>
  "closeTab s index =
     (if 0 \<le> index \<and> index < int (length (tabs s))
      then s\<lparr>tabs := take (nat index) (tabs s) @ drop (Suc (nat index)) (tabs s)\<rparr>
      else s)"

text \<open>
  One step of the application: a user command or a signal of a started loader thread
  delivered to the window. A loader thread that ends with an exception delivers nothing.
\<close>

inductive step :: "'v sqlite \<Rightarrow> main_window \<Rightarrow> main_window \<Rightarrow> bool" for env where
  step_load: "step env s (fst (loadDatabase s db_name db_path))"
| step_progress:
    "(db_name, db_path) \<in> set (started s) \<Longrightarrow> Progress v \<in> set (fst (run env db_path))
      \<Longrightarrow> step env s (updateProgressBar s v)"
| step_loaded:
    "(db_name, db_path) \<in> set (started s) \<Longrightarrow> Finished tables \<in> set (fst (run env db_path))
      \<Longrightarrow> step env s (onDatabaseLoaded s db_name tables)"
| step_click: "step env s (fst (onTreeItemClicked env s index))"
| step_closeTab: "step env s (closeTab s index)"
| step_closeAll: "step env s (closeAllTabs s)"


definition executed :: "event list \<Rightarrow> event list" where
  "executed evs = filter (\<lambda>e. case e of Execute p q \<Rightarrow> True | _ \<Rightarrow> False) evs"

text \<open>
  The float that \<^verbatim>\<open>int\<close> truncates in the progress computation,
  \<^verbatim>\<open>(k / n) * 100\<close> with \<open>k = idx + 1\<close>.
\<close>

definition scaled :: "nat \<Rightarrow> nat \<Rightarrow> py_float" where
  "scaled k n = py_float_mul (round_double (of_int (int k) / of_int (int n))) (py_float_of_int 100)"

text \<open>The lists carried by the \<^verbatim>\<open>finished\<close> signals of a trace.\<close>

definition finished_lists :: "event list \<Rightarrow> string list list" where
  "finished_lists evs = concat (map (\<lambda>e. case e of Finished names \<Rightarrow> [names] | _ \<Rightarrow> []) evs)"

section \<open>Example databases\<close>

text \<open>
  A database that opens and whose catalog lists the given tables, a file that opens but
  is not a database, so that every statement on it raises, and a database whose only
  table is named by a reserved word, so that the unquoted row scan raises.
\<close>

definition example_env :: "string list \<Rightarrow> unit sqlite" where
  "example_env names = \<lparr>db_connect = (\<lambda>p. None), query_names = (\<lambda>p q. Inr names),
     query_rows = (\<lambda>p q. Inr []), query_columns = (\<lambda>p q. Inr []), py_str = (\<lambda>v. [])\<rparr>"

definition broken_env :: "unit sqlite" where
  "broken_env = \<lparr>db_connect = (\<lambda>p. None),
     query_names = (\<lambda>p q. Inl ''file is not a database''),
     query_rows = (\<lambda>p q. Inl ''file is not a database''),
     query_columns = (\<lambda>p q. Inl ''file is not a database''), py_str = (\<lambda>v. [])\<rparr>"

definition reserved_env :: "unit sqlite" where
  "reserved_env = \<lparr>db_connect = (\<lambda>p. None), query_names = (\<lambda>p q. Inr [''order'']),
     query_rows = (\<lambda>p q. Inl ''syntax error''),
     query_columns = (\<lambda>p q. Inr []), py_str = (\<lambda>v. [])\<rparr>"


text \<open>
  The window after \<^verbatim>\<open>shop.db\<close> has been registered and its loader has delivered the
  single table \<^verbatim>\<open>order\<close>, and a window with three open tabs.
\<close>

definition shop_window :: main_window where
  "shop_window =
     onDatabaseLoaded (fst (loadDatabase init_window ''shop.db'' ''/data/shop.db''))
       ''shop.db'' [''order'']"

definition three_tabs :: main_window where
  "three_tabs = init_window\<lparr>tabs :=
     [\<lparr>widget = QTableWidget, tabText = ''customers''\<rparr>,
      \<lparr>widget = QTableWidget, tabText = ''orders''\<rparr>,
      \<lparr>widget = QTableWidget, tabText = ''items''\<rparr>]\<rparr>"

section \<open>Predicates used by the claims\<close>

text \<open>
  One of the two statements of \<^verbatim>\<open>addTableTab\<close> raises \<^verbatim>\<open>sqlite3.Error\<close> with the
  message \<open>m\<close>: the row scan, or the column-metadata query after a row scan that returned.
\<close>

definition query_fails :: "'v sqlite \<Rightarrow> string \<Rightarrow> string \<Rightarrow> string \<Rightarrow> bool" where
  "query_fails env db_path table_name m =
     (case query_rows env db_path (select_sql table_name) of
        Inl m' \<Rightarrow> m' = m
      | Inr data \<Rightarrow> query_columns env db_path (pragma_sql table_name) = Inl m)"


section \<open>Properties of the rounding\<close>

text \<open>
  The exponent chosen by \<open>ilog2\<close> brackets its argument between two powers of two; from
  that, rounding is monotone and its relative error is at most \<open>2\<^sup>-\<^sup>5\<^sup>3\<close>.
\<close>

lemma bitlen_rat_bounds:
  assumes "0 < a"
  shows "(2::rat) ^ nat (bitlen a) \<le> 2 * of_int a" and "(of_int a :: rat) < 2 ^ nat (bitlen a)"
proof -
  from bitlen_bounds[OF assms]
  have lo: "2 ^ nat (bitlen a - 1) \<le> a" and hi: "a < 2 ^ nat (bitlen a)" by auto
  have pos: "1 \<le> bitlen a" using assms by (auto simp: bitlen_alt_def)
  then have "nat (bitlen a) = Suc (nat (bitlen a - 1))" by simp
  then have "(2::int) ^ nat (bitlen a) = 2 * 2 ^ nat (bitlen a - 1)" by simp
  with lo have "(2::int) ^ nat (bitlen a) \<le> 2 * a" by simp
  then have "(of_int (2 ^ nat (bitlen a)) :: rat) \<le> of_int (2 * a)" by (simp only: of_int_le_iff)
  then show "(2::rat) ^ nat (bitlen a) \<le> 2 * of_int a" by simp
  from hi have "(of_int a :: rat) < of_int (2 ^ nat (bitlen a))" by (simp only: of_int_less_iff)
  then show "(of_int a :: rat) < 2 ^ nat (bitlen a)" by simp
qed

lemma ilog2_bounds:
  assumes "0 < x"
  shows "2 powi ilog2 x \<le> x \<and> x < 2 powi (ilog2 x + 1)"
proof -
  obtain a b where q: "quotient_of x = (a, b)" by (cases "quotient_of x")
  have b: "0 < b" using q by (rule quotient_of_denom_pos)
  have x: "x = of_int a / of_int b" using q by (rule quotient_of_div)
  have a: "0 < a" using assms b x by (simp add: zero_less_divide_iff)
  define A B PA PB where "A = (of_int a :: rat)" and "B = (of_int b :: rat)"
    and "PA = (2::rat) ^ nat (bitlen a)" and "PB = (2::rat) ^ nat (bitlen b)"
  have A: "0 < A" and B: "0 < B" using a b by (simp_all add: A_def B_def)
  have PA: "PA \<le> 2 * A" "A < PA" using bitlen_rat_bounds[OF a] by (simp_all add: A_def PA_def)
  have PB: "PB \<le> 2 * B" "B < PB" using bitlen_rat_bounds[OF b] by (simp_all add: B_def PB_def)
  have PBpos: "0 < PB" and PApos: "0 < PA" by (simp_all add: PA_def PB_def)
  have d: "(2::rat) powi (bitlen a - bitlen b) = PA / PB"
  proof -
    have "(2::rat) powi (bitlen a - bitlen b) = 2 powi bitlen a / 2 powi bitlen b"
      by (rule power_int_diff) simp
    moreover have "(2::rat) powi bitlen a = PA" "(2::rat) powi bitlen b = PB"
      using bitlen_nonneg[of a] bitlen_nonneg[of b] by (simp_all add: power_int_def PA_def PB_def)
    ultimately show ?thesis by simp
  qed
  have d1: "(2::rat) powi (bitlen a - bitlen b + 1) = 2 * PA / PB"
    using d by (simp add: power_int_add)
  have dm: "(2::rat) powi (bitlen a - bitlen b - 1) = PA / PB / 2"
    using d by (simp add: power_int_diff)
  have cond: "(b * 2 ^ nat (bitlen a) \<le> a * 2 ^ nat (bitlen b)) = (B * PA \<le> A * PB)"
  proof -
    have "(b * 2 ^ nat (bitlen a) \<le> a * 2 ^ nat (bitlen b))
        = ((of_int (b * 2 ^ nat (bitlen a)) :: rat) \<le> of_int (a * 2 ^ nat (bitlen b)))"
      by (simp only: of_int_le_iff)
    then show ?thesis by (simp add: A_def B_def PA_def PB_def)
  qed
  have xAB: "x = A / B" using x by (simp add: A_def B_def)
  show ?thesis
  proof (cases "B * PA \<le> A * PB")
    case True
    then have il: "ilog2 x = bitlen a - bitlen b" using cond by (simp add: ilog2_def q)
    have "PA / PB \<le> x" unfolding xAB using True B PBpos by (simp add: field_simps)
    moreover have "A * PB < PA * (2 * B)"
    proof -
      have "A * PB < PA * PB" using PA(2) PBpos by simp
      also have "\<dots> \<le> PA * (2 * B)" using PB(1) PApos by simp
      finally show ?thesis .
    qed
    then have "x < 2 * PA / PB" unfolding xAB using B PBpos by (simp add: field_simps)
    ultimately show ?thesis by (simp add: il d d1)
  next
    case False
    then have il: "ilog2 x = bitlen a - bitlen b - 1" using cond by (simp add: ilog2_def q)
    have "x < PA / PB" unfolding xAB using False B PBpos by (simp add: field_simps)
    moreover have "PA * B \<le> 2 * A * PB"
    proof -
      have "PA * B \<le> (2 * A) * B" using PA(1) B by simp
      also have "\<dots> \<le> (2 * A) * PB" using PB(2) A by simp
      finally show ?thesis by simp
    qed
    then have "PA / PB / 2 \<le> x" unfolding xAB using B PBpos by (simp add: field_simps)
    ultimately show ?thesis by (simp add: il d dm)
  qed
qed

lemma round_half_even_bounds:
  "\<lfloor>y\<rfloor> \<le> round_half_even y" "round_half_even y \<le> \<lfloor>y\<rfloor> + 1"
  by (simp_all add: round_half_even_def Let_def)

lemma round_half_even_of_int [simp]: "round_half_even (of_int n) = n"
  by (simp add: round_half_even_def)

lemma round_half_even_mono:
  assumes "x \<le> y"
  shows "round_half_even x \<le> round_half_even y"
proof (cases "\<lfloor>x\<rfloor> = \<lfloor>y\<rfloor>")
  case True
  then show ?thesis using assms by (auto simp: round_half_even_def Let_def)
next
  case False
  then have "\<lfloor>x\<rfloor> + 1 \<le> \<lfloor>y\<rfloor>" using floor_mono[OF assms] by simp
  then show ?thesis
    using round_half_even_bounds(2)[of x] round_half_even_bounds(1)[of y] by linarith
qed

lemma round_half_even_error:
  "\<bar>of_int (round_half_even y) - y\<bar> \<le> 1 / 2"
proof -
  have "of_int \<lfloor>y\<rfloor> \<le> y" "y < of_int \<lfloor>y\<rfloor> + 1" by linarith+
  then show ?thesis by (auto simp: round_half_even_def Let_def abs_le_iff)
qed

lemma significand_bounds:
  assumes "0 < x"
  shows "2 ^ 52 \<le> x / 2 powi (ilog2 x - 52)" "x / 2 powi (ilog2 x - 52) < 2 ^ 53"
proof -
  have p: "(0::rat) < 2 powi (ilog2 x - 52)" by simp
  have e: "(2::rat) powi ilog2 x = 2 ^ 52 * 2 powi (ilog2 x - 52)"
    "(2::rat) powi (ilog2 x + 1) = 2 ^ 53 * 2 powi (ilog2 x - 52)"
    by (simp_all add: power_int_diff power_int_add)
  from ilog2_bounds[OF assms] have "2 ^ 52 * 2 powi (ilog2 x - 52) \<le> x"
    "x < 2 ^ 53 * 2 powi (ilog2 x - 52)" using e by simp_all
  then show "2 ^ 52 \<le> x / 2 powi (ilog2 x - 52)" "x / 2 powi (ilog2 x - 52) < 2 ^ 53"
    using p by (simp_all add: pos_le_divide_eq pos_divide_less_eq)
qed

lemma round_pos_bounds:
  assumes "0 < x"
  shows "2 powi ilog2 x \<le> round_pos x" "round_pos x \<le> 2 powi (ilog2 x + 1)"
proof -
  let ?s = "(2::rat) powi (ilog2 x - 52)"
  let ?m = "round_half_even (x / ?s)"
  have p: "0 < ?s" by simp
  have "round_half_even (of_int (2 ^ 52)) \<le> ?m"
    using significand_bounds(1)[OF assms] by (intro round_half_even_mono) simp
  then have lo: "(2::int) ^ 52 \<le> ?m" by (simp only: round_half_even_of_int)
  have "?m \<le> round_half_even (of_int (2 ^ 53))"
    using significand_bounds(2)[OF assms] by (intro round_half_even_mono) simp
  then have hi: "?m \<le> (2::int) ^ 53" by (simp only: round_half_even_of_int)
  have "(of_int (2 ^ 52) :: rat) \<le> of_int ?m" using lo by (simp only: of_int_le_iff)
  then have "2 ^ 52 * ?s \<le> of_int ?m * ?s" using p by simp
  then show "2 powi ilog2 x \<le> round_pos x"
    by (simp add: round_pos_def Let_def power_int_diff)
  have "(of_int ?m :: rat) \<le> of_int (2 ^ 53)" using hi by (simp only: of_int_le_iff)
  then have "of_int ?m * ?s \<le> 2 ^ 53 * ?s" using p by simp
  then show "round_pos x \<le> 2 powi (ilog2 x + 1)"
    by (simp add: round_pos_def Let_def power_int_diff power_int_add)
qed

lemma ilog2_mono:
  assumes "0 < x" "x \<le> y"
  shows "ilog2 x \<le> ilog2 y"
proof (rule ccontr)
  assume "\<not> ilog2 x \<le> ilog2 y"
  then have "ilog2 y + 1 \<le> ilog2 x" by simp
  then have "(2::rat) powi (ilog2 y + 1) \<le> 2 powi ilog2 x"
    by (intro power_int_increasing) simp_all
  moreover have "0 < y" using assms by simp
  ultimately show False
    using ilog2_bounds[OF assms(1)] ilog2_bounds[OF \<open>0 < y\<close>] assms(2) by linarith
qed

lemma round_pos_mono:
  assumes "0 < x" "x \<le> y"
  shows "round_pos x \<le> round_pos y"
proof (cases "ilog2 x = ilog2 y")
  case True
  have p: "(0::rat) < 2 powi (ilog2 y - 52)" by simp
  have "x / 2 powi (ilog2 y - 52) \<le> y / 2 powi (ilog2 y - 52)"
    using assms(2) p by (simp add: divide_right_mono)
  then have "round_half_even (x / 2 powi (ilog2 y - 52)) \<le> round_half_even (y / 2 powi (ilog2 y - 52))"
    by (rule round_half_even_mono)
  then have "(of_int (round_half_even (x / 2 powi (ilog2 y - 52))) :: rat)
      \<le> of_int (round_half_even (y / 2 powi (ilog2 y - 52)))" by (simp only: of_int_le_iff)
  then show ?thesis using p by (simp add: round_pos_def Let_def True)
next
  case False
  have y: "0 < y" using assms by simp
  from False ilog2_mono[OF assms] have "ilog2 x + 1 \<le> ilog2 y" by simp
  then have "(2::rat) powi (ilog2 x + 1) \<le> 2 powi ilog2 y"
    by (intro power_int_increasing) simp_all
  then show ?thesis
    using round_pos_bounds(2)[OF assms(1)] round_pos_bounds(1)[OF y] by linarith
qed

lemma round_pos_positive: "0 < x \<Longrightarrow> 0 < round_pos x"
  using round_pos_bounds(1)[of x] by (meson less_le_trans zero_less_numeral zero_less_power_int)

lemma round_double_mono:
  assumes "0 \<le> x" "x \<le> y"
  shows "round_double x \<le> round_double y"
proof (cases "x = 0")
  case True
  then show ?thesis using assms round_pos_positive[of y]
    by (auto simp: round_double_def intro: less_imp_le)
next
  case False
  then have "0 < x" using assms by simp
  then show ?thesis using assms round_pos_mono[of x y] by (simp add: round_double_def)
qed

lemma round_pos_error:
  assumes "0 < x"
  shows "\<bar>round_pos x - x\<bar> \<le> x / 2 ^ 53"
proof -
  let ?s = "(2::rat) powi (ilog2 x - 52)"
  let ?m = "round_half_even (x / ?s)"
  have p: "0 < ?s" by simp
  have "round_pos x - x = (of_int ?m - x / ?s) * ?s"
    using p by (simp add: round_pos_def Let_def algebra_simps)
  then have "\<bar>round_pos x - x\<bar> = \<bar>of_int ?m - x / ?s\<bar> * ?s"
    using p by (simp add: abs_mult)
  also have "\<dots> \<le> (1 / 2) * ?s"
    using round_half_even_error[of "x / ?s"] p by (intro mult_right_mono) simp_all
  also have "\<dots> \<le> (x / 2 ^ 52) / 2"
  proof -
    have "2 ^ 52 * ?s \<le> x" using significand_bounds(1)[OF assms] p by (simp add: pos_le_divide_eq)
    then show ?thesis by (simp add: field_simps)
  qed
  also have "\<dots> = x / 2 ^ 53" by simp
  finally show ?thesis .
qed

section \<open>The percentage computed in floats\<close>

lemma round_double_1: "round_double 1 = 1"
  by code_simp

lemma float_100: "py_float_of_int 100 = 100"
  by code_simp

lemma round_double_100: "round_double 100 = 100"
  by code_simp

lemma round_double_0: "round_double 0 = 0"
  by (simp add: round_double_def)

lemma round_double_pos: "0 < x \<Longrightarrow> round_double x = round_pos x"
  by (simp add: round_double_def)

lemma progress_value_eq:
  "n \<noteq> 0 \<Longrightarrow> progress_value idx n = Inr (py_int (scaled (Suc idx) n))"
  by (simp add: progress_value_def py_truediv_def scaled_def add.commute)

lemma quotient_bounds:
  assumes "0 < k" "k \<le> n"
  shows "0 < round_double (of_int (int k) / of_int (int n))"
    and "round_double (of_int (int k) / of_int (int n)) \<le> 1"
proof -
  let ?x = "of_int (int k) / of_int (int n) :: rat"
  have x: "0 < ?x" "?x \<le> 1" using assms by simp_all
  show "0 < round_double ?x" using x(1) round_pos_positive[of ?x] by (simp add: round_double_pos)
  have "round_double ?x \<le> round_double 1" using x by (intro round_double_mono) simp_all
  then show "round_double ?x \<le> 1" by (simp add: round_double_1)
qed

lemma scaled_bounds_0_100:
  assumes "0 < k" "k \<le> n"
  shows "0 < scaled k n" and "scaled k n \<le> 100"
proof -
  let ?q = "round_double (of_int (int k) / of_int (int n))"
  note q = quotient_bounds[OF assms]
  have y: "0 < ?q * 100" "?q * 100 \<le> 100" using q by simp_all
  show "0 < scaled k n" using y(1) round_pos_positive[of "?q * 100"]
    by (simp add: scaled_def py_float_mul_def float_100 round_double_pos)
  have "round_double (?q * 100) \<le> round_double 100" using y by (intro round_double_mono) simp_all
  then show "scaled k n \<le> 100"
    by (simp add: scaled_def py_float_mul_def float_100 round_double_100)
qed

lemma scaled_mono:
  assumes "0 < k" "k \<le> k'" "0 < n"
  shows "scaled k n \<le> scaled k' n"
proof -
  let ?x = "of_int (int k) / of_int (int n) :: rat"
  let ?x' = "of_int (int k') / of_int (int n) :: rat"
  have "0 < ?x" "?x \<le> ?x'" using assms by (simp_all add: divide_right_mono)
  then have q: "round_double ?x \<le> round_double ?x'" by (intro round_double_mono) simp_all
  have "0 < round_double ?x" using \<open>0 < ?x\<close> round_pos_positive[of ?x] by (simp add: round_double_pos)
  then have "0 \<le> round_double ?x * 100" by simp
  moreover have "round_double ?x * 100 \<le> round_double ?x' * 100" using q by simp
  ultimately have "round_double (round_double ?x * 100) \<le> round_double (round_double ?x' * 100)"
    by (rule round_double_mono)
  then show ?thesis by (simp add: scaled_def py_float_mul_def float_100)
qed

lemma scaled_full: "0 < n \<Longrightarrow> scaled n n = 100"
  by (simp add: scaled_def py_float_mul_def float_100 round_double_1 round_double_100)

lemma triangle_100: "\<bar>v - 100 * x\<bar> \<le> \<bar>v - q * 100\<bar> + 100 * \<bar>q - x\<bar>" for v q x :: rat
proof -
  have "v - 100 * x = (v - q * 100) + 100 * (q - x)" by (simp add: algebra_simps)
  then have "\<bar>v - 100 * x\<bar> \<le> \<bar>v - q * 100\<bar> + \<bar>100 * (q - x)\<bar>"
    by (simp only: abs_triangle_ineq)
  moreover have "\<bar>100 * (q - x)\<bar> = 100 * \<bar>q - x\<bar>" unfolding abs_mult by simp
  ultimately show ?thesis by (simp only:)
qed

lemma scaled_error:
  assumes "0 < k" "k \<le> n"
  shows "\<bar>scaled k n - 100 * of_nat k / of_nat n\<bar> < 1 / 2 ^ 45"
proof -
  let ?x = "of_int (int k) / of_int (int n) :: rat"
  let ?q = "round_double ?x"
  have x: "0 < ?x" "?x \<le> 1" using assms by simp_all
  note q = quotient_bounds[OF assms]
  have e1: "\<bar>?q - ?x\<bar> \<le> ?x / 2 ^ 53"
    using round_pos_error[OF x(1)] x(1) by (simp add: round_double_pos)
  have y: "0 < ?q * 100" using q by simp
  have e2: "\<bar>scaled k n - ?q * 100\<bar> \<le> ?q * 100 / 2 ^ 53"
    using round_pos_error[OF y] y by (simp add: scaled_def py_float_mul_def float_100 round_double_pos)
  have "\<bar>scaled k n - 100 * ?x\<bar> \<le> \<bar>scaled k n - ?q * 100\<bar> + 100 * \<bar>?q - ?x\<bar>"
    by (rule triangle_100)
  also have "\<dots> \<le> ?q * 100 / 2 ^ 53 + 100 * (?x / 2 ^ 53)" 
  proof -
    have "100 * \<bar>?q - ?x\<bar> \<le> 100 * (?x / 2 ^ 53)" using e1 by (intro mult_left_mono) simp_all
    then show ?thesis using e2 by (rule add_mono[rotated])
  qed
  also have "\<dots> \<le> 1 * 100 / 2 ^ 53 + 100 * (1 / 2 ^ 53)"
    using q(2) x(2) by (intro add_mono mult_left_mono divide_right_mono mult_right_mono) simp_all
  also have "\<dots> < 1 / 2 ^ 45" by simp
  finally have "\<bar>scaled k n - 100 * ?x\<bar> < 1 / 2 ^ 45" .
  then show ?thesis by simp
qed

lemma py_int_scaled:
  assumes "0 < k" "k \<le> n"
  shows "py_int (scaled k n) = \<lfloor>scaled k n\<rfloor>"
  using scaled_bounds_0_100(1)[OF assms] by (simp add: py_int_def)

lemma scaled_near:
  assumes "0 < k" "k \<le> n"
  shows "100 * of_nat k / of_nat n - 1 / 2 ^ 45 < scaled k n"
    and "scaled k n < 100 * of_nat k / of_nat n + 1 / 2 ^ 45"
  using scaled_error[OF assms] unfolding abs_less_iff by linarith+

lemma percent_lower:
  assumes "0 < k" "k \<le> n"
  shows "(100 * int k) div int n - 1 \<le> py_int (scaled k n)"
proof -
  define X :: rat where "X = 100 * of_nat k / of_nat n"
  have fl: "\<lfloor>X\<rfloor> = (100 * int k) div int n"
    unfolding X_def using floor_divide_of_int_eq[of "100 * int k" "int n", where ?'a = rat] by simp
  have a: "X - 1 / 2 ^ 45 < scaled k n" unfolding X_def by (rule scaled_near(1)[OF assms])
  have b: "of_int \<lfloor>X\<rfloor> \<le> X" by (rule of_int_floor_le)
  have c: "(1::rat) / 2 ^ 45 \<le> 1" by simp
  have "of_int \<lfloor>X\<rfloor> - 1 \<le> scaled k n" using a b c by linarith
  then have "of_int (\<lfloor>X\<rfloor> - 1) \<le> scaled k n" by simp
  then have "\<lfloor>X\<rfloor> - 1 \<le> \<lfloor>scaled k n\<rfloor>" by (simp only: le_floor_iff)
  then show ?thesis by (simp only: py_int_scaled[OF assms] fl)
qed

lemma percent_gap:
  assumes "0 < n" "(100 * int k) div int n < m"
  shows "100 * of_nat k / of_nat n + 1 / of_nat n \<le> (of_int m :: rat)"
proof -
  have "(100 * int k) div int n + 1 \<le> m" using assms(2) by simp
  then have "((100 * int k) div int n + 1) * int n \<le> m * int n"
    by (intro mult_right_mono) simp_all
  moreover have "100 * int k < ((100 * int k) div int n + 1) * int n"
  proof -
    define d r where "d = (100 * int k) div int n" and "r = (100 * int k) mod int n"
    have "100 * int k = d * int n + r" by (simp add: d_def r_def)
    moreover have "r < int n" using assms(1) by (simp add: r_def)
    moreover have "(d + 1) * int n = d * int n + int n" by (simp add: algebra_simps)
    ultimately show ?thesis unfolding d_def[symmetric] by linarith
  qed
  ultimately have "100 * int k + 1 \<le> m * int n" by linarith
  then have "(of_int (100 * int k + 1) :: rat) \<le> of_int (m * int n)" by (simp only: of_int_le_iff)
  then have "100 * of_nat k + 1 \<le> (of_int m :: rat) * of_nat n" by simp
  then show ?thesis using assms(1) by (simp add: field_simps)
qed

lemma percent_upper:
  assumes "0 < k" "k \<le> n" "n < 2 ^ 45"
  shows "py_int (scaled k n) \<le> (100 * int k) div int n"
proof (rule ccontr)
  assume "\<not> ?thesis"
  then have lt: "(100 * int k) div int n < \<lfloor>scaled k n\<rfloor>"
    by (simp add: py_int_scaled[OF assms(1,2)])
  have n: "0 < n" using assms by simp
  let ?X = "100 * of_nat k / of_nat n :: rat"
  have "?X + 1 / of_nat n \<le> of_int \<lfloor>scaled k n\<rfloor>" using percent_gap[OF n lt] .
  also have "\<dots> \<le> scaled k n" by (rule of_int_floor_le)
  also have "\<dots> < ?X + 1 / 2 ^ 45" by (rule scaled_near(2)[OF assms(1,2)])
  finally have "1 / (of_nat n :: rat) < 1 / 2 ^ 45" by simp
  then have "(2::rat) ^ 45 < of_nat n" using n by (simp add: field_simps)
  then have "(of_nat (2 ^ 45) :: rat) < of_nat n" by simp
  then have "(2::nat) ^ 45 < n" by (simp only: of_nat_less_iff)
  then show False using assms(3) by simp
qed

lemma load_tables_trace:
  assumes "n \<noteq> 0"
  shows "load_tables n idx ts (acc, evs) =
    ((acc @ ts, evs @ map (\<lambda>i. Progress (py_int (scaled (Suc i) n))) [idx ..< idx + length ts]), None)"
proof (induction ts arbitrary: idx acc evs)
  case Nil
  show ?case by simp
next
  case (Cons t ts)
  have "[idx ..< idx + length (t # ts)] = idx # [Suc idx ..< Suc idx + length ts]"
    using upt_conv_Cons[of idx "idx + length (t # ts)"] by simp
  then show ?case
    by (simp add: progress_value_eq[OF assms] Cons.IH)
qed

lemma run_trace:
  assumes "db_connect env p = None" "query_names env p catalog_sql = Inr tables"
  shows "run env p =
    ([Connect p, Execute p catalog_sql]
      @ map (\<lambda>i. Progress (py_int (scaled (Suc i) (length tables)))) [0 ..< length tables]
      @ [Close p, Finished tables], None)"
proof (cases tables)
  case Nil
  then show ?thesis using assms by (simp add: run_def)
next
  case (Cons t ts)
  then have "length tables \<noteq> 0" by simp
  from load_tables_trace[OF this, of 0 tables "[]"] show ?thesis
    using assms by (simp add: run_def)
qed

lemma progress_values_append:
  "progress_values (xs @ ys) = progress_values xs @ progress_values ys"
  by (simp add: progress_values_def)

lemma progress_values_map: "progress_values (map (\<lambda>i. Progress (f i)) is) = map f is"
  by (induction "is") (simp_all add: progress_values_def)

lemma run_progress_values:
  assumes "db_connect env p = None" "query_names env p catalog_sql = Inr tables"
  shows "progress_values (fst (run env p)) =
    map (\<lambda>i. py_int (scaled (Suc i) (length tables))) [0 ..< length tables]"
proof -
  have "progress_values [Connect p, Execute p catalog_sql] = []"
    "progress_values [Close p, Finished tables] = []" by (simp_all add: progress_values_def)
  then show ?thesis
    by (simp only: run_trace[OF assms] fst_conv progress_values_append progress_values_map) simp
qed

lemma percent_exact:
  assumes "0 < k" "k \<le> n" "n < 2 ^ 45" "\<not> int n dvd 100 * int k"
  shows "py_int (scaled k n) = (100 * int k) div int n"
proof -
  define d r where "d = (100 * int k) div int n" and "r = (100 * int k) mod int n"
  have n: "0 < n" using assms by simp
  have dr: "100 * int k = d * int n + r" by (simp add: d_def r_def)
  have "r \<noteq> 0" using assms(4) by (simp add: r_def dvd_eq_mod_eq_0)
  moreover have "0 \<le> r" using n by (simp add: r_def)
  ultimately have r1: "1 \<le> r" by simp
  have "(of_int (d * int n + 1) :: rat) \<le> of_int (100 * int k)"
    using dr r1 by (simp only: of_int_le_iff)
  then have "of_int d * of_nat n + 1 \<le> (100 * of_nat k :: rat)" by simp
  then have "(of_int d * of_nat n + 1) / of_nat n \<le> (100 * of_nat k / of_nat n :: rat)"
    by (intro divide_right_mono) simp_all
  moreover have "(of_int d * of_nat n + 1) / of_nat n = (of_int d + 1 / of_nat n :: rat)"
    using n by (simp add: add_divide_distrib)
  ultimately have X: "of_int d + 1 / of_nat n \<le> (100 * of_nat k / of_nat n :: rat)"
    by (simp only:)
  have "(of_nat n :: rat) < of_nat (2 ^ 45)" using assms(3) by (simp only: of_nat_less_iff)
  then have "(of_nat n :: rat) < 2 ^ 45" by simp
  then have small: "(1::rat) / 2 ^ 45 < 1 / of_nat n" using n by (simp add: field_simps)
  have "of_int d < scaled k n" using scaled_near(1)[OF assms(1,2)] X small by linarith
  then have "d \<le> \<lfloor>scaled k n\<rfloor>" by (simp add: le_floor_iff)
  then have "d \<le> py_int (scaled k n)" by (simp only: py_int_scaled[OF assms(1,2)])
  then show ?thesis using percent_upper[OF assms(1-3)] by (simp add: d_def)
qed

lemma py_int_scaled_mono:
  assumes "0 < k" "k \<le> k'" "k' \<le> n"
  shows "py_int (scaled k n) \<le> py_int (scaled k' n)"
proof -
  have "0 < k'" "k \<le> n" "0 < n" using assms by simp_all
  then show ?thesis
    using scaled_mono[OF assms(1,2) \<open>0 < n\<close>] assms
    by (simp add: py_int_scaled floor_mono)
qed

lemma py_int_scaled_full: "0 < n \<Longrightarrow> py_int (scaled n n) = 100"
  by (simp add: scaled_full py_int_def)

lemma sorted_progress: "sorted (map (\<lambda>i. py_int (scaled (Suc i) n)) [0 ..< n])"
  by (simp add: sorted_iff_nth_mono py_int_scaled_mono)

lemma finished_lists_run:
  assumes "db_connect env p = None" "query_names env p catalog_sql = Inr tables"
  shows "finished_lists (fst (run env p)) = [tables]"
proof -
  have "finished_lists (map (\<lambda>i. Progress (f i)) is) = []" for f and "is" :: "nat list"
    by (induction "is") (simp_all add: finished_lists_def)
  then show ?thesis by (simp add: run_trace[OF assms] finished_lists_def)
qed

lemma two_thirds_truncated: "py_int (scaled (Suc (Suc 0)) (Suc (Suc (Suc 0)))) = 66" by code_simp

lemma two_thirds_rounded: "spec_progress 1 3 = 67" by code_simp

section \<open>Claims about the table lister\<close>

text \<open>
  C1, as the specification words it: for a catalog of \<open>N \<ge> 1\<close> tables the progress value
  of the entry at index \<open>idx\<close> is the rounded percentage \<open>round (100 \<times> (idx + 1) / N)\<close>. The
  code truncates instead: for three tables the second value emitted is 66, while the
  rounded percentage is 67.
\<close>

theorem C1_rounded_counterexample:
  "progress_values (fst (run (example_env [''a'', ''b'', ''c'']) ''shop.db'')) ! 1 = 66
   \<and> spec_progress 1 3 = 67"
proof -
  have "progress_values (fst (run (example_env [''a'', ''b'', ''c'']) ''shop.db''))
      = map (\<lambda>i. py_int (scaled (Suc i) (length [''a'', ''b'', ''c'']))) [0 ..< length [''a'', ''b'', ''c'']]"
    by (rule run_progress_values) (simp_all add: example_env_def)
  then show ?thesis using two_thirds_truncated two_thirds_rounded by (simp add: upt_rec)
qed

text \<open>
  C1, amended: one progress value is emitted per entry, and the value for index \<open>idx\<close> is
  \<^verbatim>\<open>int(((idx + 1) / N) * 100)\<close>, the double-precision product truncated toward zero. It
  is never less than the percentage rounded down minus one; for fewer than \<open>2\<^sup>4\<^sup>5\<close> tables it
  never exceeds the percentage rounded down, and equals it whenever the percentage is not
  a whole number.
\<close>

theorem C1_progress_truncated:
  assumes "db_connect env p = None" and "query_names env p catalog_sql = Inr tables"
    and "idx < length tables"
  shows "length (progress_values (fst (run env p))) = length tables
    \<and> progress_value idx (length tables) = Inr (progress_values (fst (run env p)) ! idx)
    \<and> (100 * (int idx + 1)) div int (length tables) - 1 \<le> progress_values (fst (run env p)) ! idx
    \<and> (length tables < 2 ^ 45 \<longrightarrow>
         progress_values (fst (run env p)) ! idx \<le> (100 * (int idx + 1)) div int (length tables))
    \<and> (length tables < 2 ^ 45 \<and> \<not> int (length tables) dvd 100 * (int idx + 1) \<longrightarrow>
         progress_values (fst (run env p)) ! idx = (100 * (int idx + 1)) div int (length tables))"
proof -
  let ?n = "length tables"
  have v: "progress_values (fst (run env p)) ! idx = py_int (scaled (Suc idx) ?n)"
    using assms(3) by (simp add: run_progress_values[OF assms(1,2)])
  have k: "0 < Suc idx" "Suc idx \<le> ?n" "?n \<noteq> 0" using assms(3) by auto
  have i: "int (Suc idx) = int idx + 1" by simp
  show ?thesis
    unfolding v
    using percent_lower[OF k(1,2)] percent_upper[OF k(1,2)] percent_exact[OF k(1,2)]
      progress_value_eq[OF k(3), of idx]
    by (simp add: run_progress_values[OF assms(1,2)] i del: of_nat_Suc)
qed

theorem C1_progress_truncated_witness:
  "progress_values (fst (run (example_env [''a'', ''b'', ''c'']) ''shop.db'')) ! 1 = 66
   \<and> length (progress_values (fst (run (example_env [''a'', ''b'', ''c'']) ''shop.db''))) = 3"
  using C1_progress_truncated[of "example_env [''a'', ''b'', ''c'']" "''shop.db''" "[''a'', ''b'', ''c'']" 1]
  by (simp add: example_env_def)

text \<open>
  C2, as stated, covers every catalog, the empty one too: there no progress value is
  emitted, so the sequence has no last element and does not end at 100.
\<close>

theorem C2_empty_counterexample:
  "progress_values (fst (run (example_env []) ''empty.db'')) = []"
  by (simp add: run_progress_values example_env_def)

text \<open>
  C2, amended: the progress values are non-decreasing; for a catalog with at least one
  table the last one is 100, and for an empty catalog there is none. The only
  \<^verbatim>\<open>finished\<close> signal is the last event and carries the catalog's names, all of them
  and in the catalog's order.
\<close>

theorem C2_progress_monotone:
  assumes "db_connect env p = None" and "query_names env p catalog_sql = Inr tables"
  shows "sorted (progress_values (fst (run env p)))
    \<and> (tables \<noteq> [] \<longrightarrow> last (progress_values (fst (run env p))) = 100)
    \<and> (tables = [] \<longrightarrow> progress_values (fst (run env p)) = [])
    \<and> finished_lists (fst (run env p)) = [tables]
    \<and> last (fst (run env p)) = Finished tables"
proof -
  let ?n = "length tables"
  have pv: "progress_values (fst (run env p)) = map (\<lambda>i. py_int (scaled (Suc i) ?n)) [0 ..< ?n]"
    by (rule run_progress_values[OF assms])
  have "last (map (\<lambda>i. py_int (scaled (Suc i) ?n)) [0 ..< ?n]) = 100" if "tables \<noteq> []"
  proof -
    from that obtain m where m: "?n = Suc m" by (cases tables) simp_all
    then show ?thesis using py_int_scaled_full[of "Suc m"] by (simp add: last_map)
  qed
  moreover have "last (fst (run env p)) = Finished tables"
    by (simp add: run_trace[OF assms])
  ultimately show ?thesis
    by (simp add: pv sorted_progress finished_lists_run[OF assms])
qed

theorem C2_progress_monotone_witness:
  "sorted (progress_values (fst (run (example_env [''a'', ''b'', ''c'']) ''shop.db'')))
   \<and> last (progress_values (fst (run (example_env [''a'', ''b'', ''c'']) ''shop.db''))) = 100
   \<and> finished_lists (fst (run (example_env [''a'', ''b'', ''c'']) ''shop.db''))
       = [[''a'', ''b'', ''c'']]"
  using C2_progress_monotone[of "example_env [''a'', ''b'', ''c'']" "''shop.db''" "[''a'', ''b'', ''c'']"]
  by (simp add: example_env_def)

text \<open>
  C3: the claim asks that the connection be closed on every execution, failed ones
  included. On a file that opens but whose catalog query raises, \<^verbatim>\<open>run\<close> ends with the
  exception right after the statement: the trace holds no \<^verbatim>\<open>Close\<close> and no
  \<^verbatim>\<open>finished\<close> signal. \<^verbatim>\<open>addTableTab\<close> guards the same calls with
  \<^verbatim>\<open>try ... finally: conn.close()\<close>.
\<close>

theorem C3_failed_query_never_closes:
  "run broken_env ''notes.txt'' =
     ([Connect ''notes.txt'', Execute ''notes.txt'' catalog_sql],
      Some (SqliteError ''file is not a database''))"
  by (simp add: run_def broken_env_def)

text \<open>
  C9: for a catalog without tables the loop body never runs, so no progress value is
  emitted and the division by the table count, which would raise ZeroDivisionError, is
  never evaluated; the connection is closed and the \<^verbatim>\<open>finished\<close> signal carries the
  empty list.
\<close>

theorem C9_empty_catalog:
  assumes "db_connect env p = None" and "query_names env p catalog_sql = Inr []"
  shows "run env p = ([Connect p, Execute p catalog_sql, Close p, Finished []], None)
    \<and> progress_values (fst (run env p)) = []
    \<and> progress_value idx 0 = Inl ZeroDivisionError"
  using assms
  by (simp add: run_def progress_values_def progress_value_def py_truediv_def)

theorem C9_empty_catalog_witness:
  "run (example_env []) ''empty.db'' =
     ([Connect ''empty.db'', Execute ''empty.db'' catalog_sql, Close ''empty.db'', Finished []],
      None)"
  using C9_empty_catalog[of "example_env []" "''empty.db''" 0]
  by (simp add: example_env_def)

section \<open>Properties of the window operations\<close>

lemma setItem_counts [simp]:
  "rowCount (setItem w r c t) = rowCount w" "columnCount (setItem w r c t) = columnCount w"
  "headerLabels (setItem w r c t) = headerLabels w"
  by (simp_all add: setItem_def)

lemma fill_row_counts [simp]:
  "rowCount (fill_row str r c xs w) = rowCount w \<and> columnCount (fill_row str r c xs w) = columnCount w
   \<and> headerLabels (fill_row str r c xs w) = headerLabels w"
  by (induction xs arbitrary: c w) simp_all

lemma fill_rows_counts [simp]:
  "rowCount (fill_rows str r rows w) = rowCount w \<and> columnCount (fill_rows str r rows w) = columnCount w
   \<and> headerLabels (fill_rows str r rows w) = headerLabels w"
  by (induction rows arbitrary: r w) simp_all

lemma build_table_counts:
  "rowCount (build_table str data columns) = length data"
  "columnCount (build_table str data columns) = length columns"
  "headerLabels (build_table str data columns) = map col_name columns"
  by (simp_all add: build_table_def Let_def setHorizontalHeaderLabels_def setColumnCount_def
      setRowCount_def QTableWidget_def)

lemma loadDatabase_fields:
  "treeModel (fst (loadDatabase s n p)) = treeModel s"
  "tabs (fst (loadDatabase s n p)) = tabs s"
  "trace (fst (loadDatabase s n p)) = trace s"
  "database_items s k = Some v \<Longrightarrow> database_items (fst (loadDatabase s n p)) k = Some v"
  "set (started (fst (loadDatabase s n p))) \<subseteq> insert (n, p) (set (started s))"
  "n \<in> dom (database_items (fst (loadDatabase s n p)))"
  by (auto simp: loadDatabase_def Let_def store_entry_def start_loader_def setValue_def)

lemma addTableTab_fields:
  "database_items (fst (addTableTab env s n t)) = database_items s"
  "treeModel (fst (addTableTab env s n t)) = treeModel s"
  "started (fst (addTableTab env s n t)) = started s"
  by (auto simp: addTableTab_def load_table_def emit_def Let_def split: option.splits sum.splits)

lemma onTreeItemClicked_fields:
  "database_items (fst (onTreeItemClicked env s i)) = database_items s"
  "treeModel (fst (onTreeItemClicked env s i)) = treeModel s"
  "started (fst (onTreeItemClicked env s i)) = started s"
  by (auto simp: onTreeItemClicked_def addTableTab_fields split: option.splits prod.splits)

lemma step_database_items:
  assumes "step env s s'" "database_items s k = Some v"
  shows "database_items s' k = Some v"
  using assms
  by (induction rule: step.induct)
     (simp_all add: loadDatabase_fields onTreeItemClicked_fields updateProgressBar_def
        setValue_def onDatabaseLoaded_def closeTab_def closeAllTabs_def)

lemma steps_database_items:
  assumes "(step env)\<^sup>*\<^sup>* s s'" "database_items s k = Some v"
  shows "database_items s' k = Some v"
  using assms by (induction rule: rtranclp_induct) (simp_all add: step_database_items)




lemma executed_append [simp]: "executed (xs @ ys) = executed xs @ executed ys"
  by (simp add: executed_def)


lemma executed_simps [simp]:
  "executed [] = []"
  "executed (Connect p # evs) = executed evs"
  "executed (Execute p q # evs) = Execute p q # executed evs"
  "executed (Close p # evs) = executed evs"
  "executed (Print l # evs) = executed evs"
  by (simp_all add: executed_def)

section \<open>Claims about the window\<close>

text \<open>
  C4: when the connection has opened and one of the two statements raises
  \<^verbatim>\<open>sqlite3.Error\<close>, \<^verbatim>\<open>addTableTab\<close> returns normally, the error line is printed, the
  tabs are the same as before, nothing but the trace has changed, and the trace ends with
  the closing of the connection opened for the attempt.
\<close>

theorem C4_failed_query:
  assumes "database_items s db_name = Some db_path" and "db_connect env db_path = None"
    and "query_fails env db_path table_name m"
  shows "snd (addTableTab env s db_name table_name) = None
    \<and> tabs (fst (addTableTab env s db_name table_name)) = tabs s
    \<and> fst (addTableTab env s db_name table_name)
        = s\<lparr>trace := trace (fst (addTableTab env s db_name table_name))\<rparr>
    \<and> trace (fst (addTableTab env s db_name table_name))
        = trace s @ [Connect db_path, Execute db_path (select_sql table_name)]
          @ (case query_rows env db_path (select_sql table_name) of
               Inl m' \<Rightarrow> [] | Inr data \<Rightarrow> [Execute db_path (pragma_sql table_name)])
          @ [Print (error_line table_name m), Close db_path]"
  using assms
  by (auto simp: addTableTab_def load_table_def emit_def Let_def query_fails_def
      split: sum.splits)

theorem C4_failed_query_witness:
  "tabs (fst (addTableTab reserved_env shop_window ''shop.db'' ''order'')) = tabs shop_window
   \<and> trace (fst (addTableTab reserved_env shop_window ''shop.db'' ''order''))
      = [Connect ''/data/shop.db'', Execute ''/data/shop.db'' ''SELECT * FROM order'',
         Print ''Error loading table order: syntax error'', Close ''/data/shop.db'']"
  using C4_failed_query[of shop_window "''shop.db''" "''/data/shop.db''" reserved_env "''order''" "''syntax error''"]
  by (simp add: reserved_env_def shop_window_def loadDatabase_def onDatabaseLoaded_def
      init_window_def store_entry_def start_loader_def setValue_def Let_def query_fails_def
      select_sql_def error_line_def)

text \<open>
  C5, as stated: the registration returns false for a name already present and true for
  a new one. \<^verbatim>\<open>loadDatabase\<close> has no return value: it gives \<^verbatim>\<open>None\<close> for a new name
  and for a name already present alike.
\<close>

theorem C5_returns_none_counterexample:
  "snd (loadDatabase init_window ''shop.db'' ''/data/shop.db'') \<noteq> PyBool True
   \<and> snd (loadDatabase (fst (loadDatabase init_window ''shop.db'' ''/data/shop.db''))
          ''shop.db'' ''/data/shop.db'') \<noteq> PyBool False"
  by (simp add: loadDatabase_def Let_def)

text \<open>
  C5, amended: \<^verbatim>\<open>loadDatabase\<close> returns \<^verbatim>\<open>None\<close> in both cases. For a name already
  present it changes nothing, so the registry keeps its one entry for that name and no
  second load is started; for a name not present it inserts the entry and starts an
  asynchronous load. Registering the same name again, under any path, changes nothing.
\<close>

theorem C5_registration:
  "(db_name \<in> dom (database_items s) \<longrightarrow> loadDatabase s db_name db_path = (s, PyNone))
   \<and> (db_name \<notin> dom (database_items s) \<longrightarrow>
        snd (loadDatabase s db_name db_path) = PyNone
      \<and> database_items (fst (loadDatabase s db_name db_path))
          = (database_items s)(db_name \<mapsto> db_path)
      \<and> started (fst (loadDatabase s db_name db_path)) = started s @ [(db_name, db_path)]
      \<and> loaderThread (fst (loadDatabase s db_name db_path)) = Some db_path)
   \<and> loadDatabase (fst (loadDatabase s db_name db_path)) db_name db_path'
        = (fst (loadDatabase s db_name db_path), PyNone)"
  by (auto simp: loadDatabase_def Let_def store_entry_def start_loader_def setValue_def)

theorem C5_registration_witness:
  "database_items (fst (loadDatabase init_window ''shop.db'' ''/data/shop.db'')) ''shop.db''
     = Some ''/data/shop.db''
   \<and> started (fst (loadDatabase init_window ''shop.db'' ''/data/shop.db''))
     = [(''shop.db'', ''/data/shop.db'')]
   \<and> started (fst (loadDatabase (fst (loadDatabase init_window ''shop.db'' ''/data/shop.db''))
        ''shop.db'' ''/copy/shop.db'')) = [(''shop.db'', ''/data/shop.db'')]"
  using C5_registration[of "''shop.db''" init_window "''/data/shop.db''" "''/copy/shop.db''"]
  by (simp add: init_window_def)

text \<open>
  C6: when the connection has opened and both statements return, exactly one tab is
  appended, titled with the table name; the row count of its grid is the number of rows
  of the scan and its column count the number of rows of the metadata query, also when
  either is zero.
\<close>

theorem C6_grid_dimensions:
  assumes "database_items s db_name = Some db_path" and "db_connect env db_path = None"
    and "query_rows env db_path (select_sql table_name) = Inr data"
    and "query_columns env db_path (pragma_sql table_name) = Inr columns"
  shows "snd (addTableTab env s db_name table_name) = None
    \<and> length (tabs (fst (addTableTab env s db_name table_name))) = Suc (length (tabs s))
    \<and> butlast (tabs (fst (addTableTab env s db_name table_name))) = tabs s
    \<and> tabText (last (tabs (fst (addTableTab env s db_name table_name)))) = table_name
    \<and> rowCount (widget (last (tabs (fst (addTableTab env s db_name table_name))))) = length data
    \<and> columnCount (widget (last (tabs (fst (addTableTab env s db_name table_name)))))
        = length columns
    \<and> headerLabels (widget (last (tabs (fst (addTableTab env s db_name table_name)))))
        = map col_name columns"
  using assms
  by (simp add: addTableTab_def load_table_def emit_def Let_def build_table_counts)

theorem C6_grid_dimensions_witness:
  "rowCount (widget (last (tabs (fst (addTableTab (example_env []) shop_window ''shop.db'' ''order''))))) = 0
   \<and> columnCount (widget (last (tabs (fst (addTableTab (example_env []) shop_window ''shop.db'' ''order''))))) = 0
   \<and> snd (addTableTab (example_env []) shop_window ''shop.db'' ''order'') = None"
  using C6_grid_dimensions[of shop_window "''shop.db''" "''/data/shop.db''" "example_env []" "''order''" "[]" "[]"]
  by (simp add: example_env_def shop_window_def loadDatabase_def onDatabaseLoaded_def
      init_window_def store_entry_def start_loader_def setValue_def Let_def)




text \<open>
  C8: closing the tab at a valid index changes nothing but the tabs, removes exactly one
  of them, and leaves the tabs before the index and the tabs after it as they were, in
  their order; closing all tabs leaves none, whatever was open.
\<close>

theorem C8_close_tabs:
  assumes "0 \<le> index" and "index < int (length (tabs s))"
  shows "closeTab s index = s\<lparr>tabs := tabs (closeTab s index)\<rparr>
    \<and> Suc (length (tabs (closeTab s index))) = length (tabs s)
    \<and> (\<forall>j < nat index. tabs (closeTab s index) ! j = tabs s ! j)
    \<and> (\<forall>j. nat index \<le> j \<and> j < length (tabs (closeTab s index))
          \<longrightarrow> tabs (closeTab s index) ! j = tabs s ! Suc j)
    \<and> tabs (closeAllTabs s) = []
    \<and> closeAllTabs s = s\<lparr>tabs := []\<rparr>"
proof -
  have i: "nat index < length (tabs s)" using assms by simp
  have t: "tabs (closeTab s index) = take (nat index) (tabs s) @ drop (Suc (nat index)) (tabs s)"
    using assms by (simp add: closeTab_def)
  have "Suc (length (tabs (closeTab s index))) = length (tabs s)" using i by (simp add: t)
  moreover have "tabs (closeTab s index) ! j = tabs s ! j" if "j < nat index" for j
    using that i by (simp add: t nth_append)
  moreover have "tabs (closeTab s index) ! j = tabs s ! Suc j"
    if "nat index \<le> j" "j < length (tabs (closeTab s index))" for j
  proof -
    have "min (length (tabs s)) (nat index) = nat index" using i by simp
    then show ?thesis using that i by (simp add: t nth_append)
  qed
  moreover have "closeTab s index = s\<lparr>tabs := tabs (closeTab s index)\<rparr>"
    using assms by (simp add: closeTab_def)
  ultimately show ?thesis by (simp add: closeAllTabs_def)
qed

theorem C8_close_tabs_witness:
  "map tabText (tabs (closeTab three_tabs 1)) = [''customers'', ''items'']
   \<and> tabs (closeAllTabs three_tabs) = []"
  using C8_close_tabs[of 1 three_tabs]
  by (simp add: three_tabs_def closeTab_def closeAllTabs_def)

text \<open>
  C10: \<^verbatim>\<open>loadDatabase\<close> stores the entry first and starts the loader on the state that
  already holds it. From then on, through any sequence of steps and whatever the loader
  does, the name maps to the path it was registered with, and a further registration
  under that name returns at once and leaves the window as it is.
\<close>

theorem C10_registry_entry_permanent:
  assumes "db_name \<notin> dom (database_items s)"
    and "(step env)\<^sup>*\<^sup>* (fst (loadDatabase s db_name db_path)) s'"
  shows "database_items s' db_name = Some db_path
    \<and> loadDatabase s' db_name db_path' = (s', PyNone)
    \<and> (\<exists>s1. database_items s1 db_name = Some db_path
          \<and> started s1 = started s
          \<and> fst (loadDatabase s db_name db_path) = start_loader s1 db_name db_path)"
proof -
  have "database_items (fst (loadDatabase s db_name db_path)) db_name = Some db_path"
    using assms(1) by (simp add: loadDatabase_def Let_def store_entry_def start_loader_def setValue_def)
  then have "database_items s' db_name = Some db_path"
    by (rule steps_database_items[OF assms(2)])
  moreover from this have "loadDatabase s' db_name db_path' = (s', PyNone)"
    by (simp add: loadDatabase_def dom_def)
  moreover have "\<exists>s1. database_items s1 db_name = Some db_path \<and> started s1 = started s
      \<and> fst (loadDatabase s db_name db_path) = start_loader s1 db_name db_path"
    using assms(1)
    by (intro exI[of _ "(setValue ((store_entry s db_name db_path)\<lparr>progressVisible := True\<rparr>) 0)
          \<lparr>statusText := ''Loading '' @ db_name @ ''...''\<rparr>"])
       (simp add: loadDatabase_def Let_def store_entry_def setValue_def)
  ultimately show ?thesis by simp
qed

theorem C10_registry_entry_permanent_witness:
  "database_items (closeAllTabs (fst (loadDatabase init_window ''shop.db'' ''/data/shop.db'')))
     ''shop.db'' = Some ''/data/shop.db''
   \<and> loadDatabase (closeAllTabs (fst (loadDatabase init_window ''shop.db'' ''/data/shop.db'')))
       ''shop.db'' ''/copy/shop.db''
     = (closeAllTabs (fst (loadDatabase init_window ''shop.db'' ''/data/shop.db'')), PyNone)"
proof -
  have h1: "''shop.db'' \<notin> dom (database_items init_window)" by (simp add: init_window_def)
  have h2: "(step broken_env)\<^sup>*\<^sup>* (fst (loadDatabase init_window ''shop.db'' ''/data/shop.db''))
      (closeAllTabs (fst (loadDatabase init_window ''shop.db'' ''/data/shop.db'')))"
    by (rule r_into_rtranclp) (rule step_closeAll)
  from C10_registry_entry_permanent[OF h1 h2, of "''/copy/shop.db''"] show ?thesis by simp
qed

end
